theory Spec2Isabelle
  imports Main "HOL-Library.Sublist"
begin

section \<open>Question generator: response parser, accumulator loop, persistence\<close>

text \<open>
  Shallow embedding of \<^verbatim>\<open>question_generator.py\<close>. Text is a \<^typ>\<open>string\<close>
  (a list of 8-bit characters, read as code points below 256); the line break is the
  character with code 10.
\<close>

subsection \<open>Characters and trimming\<close>

abbreviation NL :: char where
  "NL \<equiv> CHR 0x0A"

text \<open>
  Python's \<^verbatim>\<open>str.isspace\<close> and the class \<^verbatim>\<open>\s\<close> of \<^verbatim>\<open>re\<close> on a \<^verbatim>\<open>str\<close>
  pattern agree; below 256 the white space characters are the codes 9 to 13, 28 to 32,
  133 and 160.
\<close>

definition is_space :: "char \<Rightarrow> bool" where
  "is_space c = (of_char c \<in> set [9, 10, 11, 12, 13, 28, 29, 30, 31, 32, 133, 160 :: nat])"

text \<open>\<^verbatim>\<open>s.strip()\<close>: drop the white space at both ends.\<close>

definition strip :: "string \<Rightarrow> string" where
  "strip s = rev (dropWhile is_space (rev (dropWhile is_space s)))"

subsection \<open>The regular expression of \<^verbatim>\<open>parse_mcq\<close>\<close>

text \<open>
  The pattern uses four constructs only: a literal text, the greedy \<^verbatim>\<open>\s*\<close>, the lazy
  capturing group \<^verbatim>\<open>(.*?)\<close> (under \<^verbatim>\<open>re.DOTALL\<close> the dot matches every character,
  the line break too) and a capturing group of one character of a set, \<^verbatim>\<open>([ABCD])\<close>.
\<close>

datatype item = Lit string | SpaceStar | LazyGroup | ClassGroup string

text \<open>
  \<open>match_here p s\<close> matches the pattern \<open>p\<close> at the start of \<open>s\<close>, as the backtracking
  matcher of \<^verbatim>\<open>re\<close> does, and returns the captured groups of the first match in
  its order of preference: \<^verbatim>\<open>\s*\<close> takes as many characters as it can and gives them
  back one at a time when the rest fails; \<^verbatim>\<open>(.*?)\<close> takes none and grows one character
  at a time when the rest fails.
\<close>

fun match_here :: "item list \<Rightarrow> string \<Rightarrow> string list option" where
  "match_here [] s = Some []"
| "match_here (Lit l # r) s =
     (if prefix l s then match_here r (drop (length l) s) else None)"
| "match_here (SpaceStar # r) [] = match_here r []"
| "match_here (SpaceStar # r) (c # cs) =
     (if is_space c
      then (case match_here (SpaceStar # r) cs of
              Some gs \<Rightarrow> Some gs
            | None \<Rightarrow> match_here r (c # cs))
      else match_here r (c # cs))"
| "match_here (LazyGroup # r) [] =
     (case match_here r [] of Some gs \<Rightarrow> Some ([] # gs) | None \<Rightarrow> None)"
| "match_here (LazyGroup # r) (c # cs) =
     (case match_here r (c # cs) of
        Some gs \<Rightarrow> Some ([] # gs)
      | None \<Rightarrow>
          (case match_here (LazyGroup # r) cs of
             Some (g # gs) \<Rightarrow> Some ((c # g) # gs)
           | _ \<Rightarrow> None))"
| "match_here (ClassGroup cls # r) [] = None"
| "match_here (ClassGroup cls # r) (c # cs) =
     (if c \<in> set cls
      then (case match_here r cs of Some gs \<Rightarrow> Some ([c] # gs) | None \<Rightarrow> None)
      else None)"

text \<open>\<^verbatim>\<open>re.search\<close>: the first position of the text where the pattern matches.\<close>

fun re_search :: "item list \<Rightarrow> string \<Rightarrow> string list option" where
  "re_search p [] = match_here p []"
| "re_search p (c # cs) =
     (case match_here p (c # cs) of
        Some gs \<Rightarrow> Some gs
      | None \<Rightarrow> re_search p cs)"

text \<open>
  \<^verbatim>\<open>r"Q:\s*(.*?)\nA\.\s*(.*?)\nB\.\s*(.*?)\nC\.\s*(.*?)\nD\.\s*(.*?)\nAnswer:\s*([ABCD])"\<close>
\<close>

definition mcq_pattern :: "item list" where
  "mcq_pattern =
     [Lit ''Q:'', SpaceStar, LazyGroup,
      Lit (NL # ''A.''), SpaceStar, LazyGroup,
      Lit (NL # ''B.''), SpaceStar, LazyGroup,
      Lit (NL # ''C.''), SpaceStar, LazyGroup,
      Lit (NL # ''D.''), SpaceStar, LazyGroup,
      Lit (NL # ''Answer:''), SpaceStar, ClassGroup ''ABCD'']"

subsection \<open>The question record and \<^verbatim>\<open>parse_mcq\<close>\<close>

text \<open>
  The dictionary that \<^verbatim>\<open>parse_mcq\<close> returns; \<open>options\<close> is the inner dictionary, in
  insertion order.
\<close>

record mcq =
  subject :: string
  level :: string
  question :: string
  options :: "(string \<times> string) list"
  correct :: string

text \<open>
  \<^verbatim>\<open>subject\<close> and \<^verbatim>\<open>level\<close> are globals of the script; the model passes them in.
  A failed search is \<open>None\<close>.
\<close>

definition parse_mcq :: "string \<Rightarrow> string \<Rightarrow> string \<Rightarrow> mcq option" where
  "parse_mcq subj lvl text =
     (case re_search mcq_pattern text of
        Some [q, a, b, c, d, corr] \<Rightarrow>
          Some \<lparr>subject = subj, level = lvl, question = strip q,
                options = [(''A'', strip a), (''B'', strip b), (''C'', strip c), (''D'', strip d)],
                correct = strip corr\<rparr>
      | _ \<Rightarrow> None)"

subsection \<open>The prompt\<close>

text \<open>\<^verbatim>\<open>str(n)\<close> of a natural number: its decimal digits.\<close>

fun str_nat :: "nat \<Rightarrow> string" where
  "str_nat n =
     (if n < 10 then [char_of (48 + n)]
      else str_nat (n div 10) @ [char_of (48 + n mod 10)])"

declare str_nat.simps [simp del]

definition build_prompt :: "string \<Rightarrow> string \<Rightarrow> nat \<Rightarrow> string" where
  "build_prompt subj lvl count =
     NL # ''Generate a '' @ lvl @ '' level multiple choice quiz question in '' @ subj @ ''.'' @
     NL # ''Make it unique and totally different. Do not repeat previous questions.'' @
     NL # ''Format exactly like this:'' @
     NL # ''Q: <question text>'' @
     NL # ''A. <option 1>'' @
     NL # ''B. <option 2>'' @
     NL # ''C. <option 3>'' @
     NL # ''D. <option 4>'' @
     NL # ''Answer: <A/B/C/D>'' @
     NL # NL # ''This is question number '' @ str_nat (count + 1) @ ''.'' @ [NL]"

subsection \<open>The model client and the accumulator loop\<close>

text \<open>
  One call \<^verbatim>\<open>model.generate_content(prompt).text\<close> either raises an exception (an
  instance of \<^verbatim>\<open>Exception\<close>, which the loop catches) or yields a text. The client is
  outside the program: it is a parameter, a function of the number of the call and of
  the prompt it receives, so that every sequence of outcomes is some client.
\<close>

datatype outcome = Raised | Text string

type_synonym client = "nat \<Rightarrow> string \<Rightarrow> outcome"

text \<open>
  The variables of the loop, and \<open>calls\<close>, the prompts sent to the model so far. The
  lines printed to the console are not modelled.
\<close>

record state =
  dataset :: "mcq list"
  seen_questions :: "string set"
  tries :: nat
  calls :: "string list"

text \<open>
  One pass through the body of the \<^verbatim>\<open>while\<close> loop. The \<^verbatim>\<open>try\<close> block leaves the
  variables as they are when the call raises, when the text does not parse and when the
  question was seen before; \<^verbatim>\<open>tries += 1\<close> follows the block on every path.
\<close>

definition loop_body :: "client \<Rightarrow> string \<Rightarrow> string \<Rightarrow> state \<Rightarrow> state" where
  "loop_body model subj lvl st =
     (let prompt = build_prompt subj lvl (length (dataset st));
          st1 = st\<lparr>calls := calls st @ [prompt]\<rparr>;
          st2 = (case model (tries st) prompt of
                   Raised \<Rightarrow> st1
                 | Text text \<Rightarrow>
                     (case parse_mcq subj lvl text of
                        Some parsed \<Rightarrow>
                          (let question_text = question parsed in
                           if question_text \<notin> seen_questions st1
                           then st1\<lparr>dataset := dataset st1 @ [parsed],
                                    seen_questions := insert question_text (seen_questions st1)\<rparr>
                           else st1)
                      | None \<Rightarrow> st1))
      in st2\<lparr>tries := tries st2 + 1\<rparr>)"

text \<open>\<^verbatim>\<open>while len(dataset) < 10 and tries < 30: ...\<close>\<close>

function while_loop :: "client \<Rightarrow> string \<Rightarrow> string \<Rightarrow> state \<Rightarrow> state" where
  "while_loop model subj lvl st =
     (if length (dataset st) < 10 \<and> tries st < 30
      then while_loop model subj lvl (loop_body model subj lvl st)
      else st)"
  by pat_completeness auto
termination
  by (relation "measure (\<lambda>(model, subj, lvl, st). 30 - tries st)")
     (auto simp: loop_body_def Let_def split: outcome.split option.split)

declare while_loop.simps [simp del]

text \<open>
  The states the loop passes through: the one it starts from and, from a state in which
  the loop condition holds, the state after the body.
\<close>

inductive visited :: "client \<Rightarrow> string \<Rightarrow> string \<Rightarrow> state \<Rightarrow> state \<Rightarrow> bool"
  for model subj lvl st0 where
  visited_start: "visited model subj lvl st0 st0"
| visited_step: "visited model subj lvl st0 st \<Longrightarrow>
     length (dataset st) < 10 \<and> tries st < 30 \<Longrightarrow>
     visited model subj lvl st0 (loop_body model subj lvl st)"

subsection \<open>The script\<close>

text \<open>
  What \<^verbatim>\<open>json.dump\<close> writes, as a value; the file system is a map from paths to the
  values written there. Writing a file and creating a directory are taken to succeed.
\<close>

datatype json = JStr string | JObj "(string \<times> json) list" | JArr "json list"

definition to_json :: "mcq \<Rightarrow> json" where
  "to_json r =
     JObj [(''subject'', JStr (subject r)), (''level'', JStr (level r)),
           (''question'', JStr (question r)),
           (''options'', JObj (map (\<lambda>(k, v). (k, JStr v)) (options r))),
           (''correct'', JStr (correct r))]"

record world =
  files :: "string \<rightharpoonup> json"
  dirs :: "string set"
  model_calls :: "string list"

datatype error = ValueError

definition init_state :: "world \<Rightarrow> state" where
  "init_state w = \<lparr>dataset = [], seen_questions = {}, tries = 0, calls = model_calls w\<rparr>"

text \<open>
  \<^verbatim>\<open>subject = sys.argv[1] if len(sys.argv) > 1 else "General Knowledge"\<close> and
  \<^verbatim>\<open>level = sys.argv[2] if len(sys.argv) > 2 else "Beginner"\<close>.
\<close>

definition subject_of :: "string list \<Rightarrow> string" where
  "subject_of argv = (if length argv > 1 then argv ! 1 else ''General Knowledge'')"

definition level_of :: "string list \<Rightarrow> string" where
  "level_of argv = (if length argv > 2 then argv ! 2 else ''Beginner'')"

definition output_file :: string where
  "output_file = ''data/questions_dataset.json''"

text \<open>
  The whole script, from the environment, the argument vector, the client and the world
  before the run. \<^verbatim>\<open>os.getenv\<close> gives \<open>None\<close> for a variable that is not set, and
  \<^verbatim>\<open>not API_KEY\<close> holds of \<open>None\<close> and of the empty string; the \<^verbatim>\<open>raise\<close> ends the
  run there, with the world as it was.
\<close>

definition main :: "(string \<rightharpoonup> string) \<Rightarrow> string list \<Rightarrow> client \<Rightarrow> world \<Rightarrow> (error + unit) \<times> world" where
  "main env argv model w =
     (let API_KEY = env ''GEMINI_API_KEY'' in
      if API_KEY = None \<or> API_KEY = Some []
      then (Inl ValueError, w)
      else
        let subj = subject_of argv;
            lvl = level_of argv;
            st = while_loop model subj lvl (init_state w)
        in (Inr (),
            w\<lparr>model_calls := calls st,
              dirs := insert ''data'' (dirs w),
              files := (files w)(output_file \<mapsto> JArr (map to_json (dataset st)))\<rparr>))"

subsection \<open>Sample runs\<close>

text \<open>
  Concrete inputs for the examples below: an environment that holds a credential, an
  argument vector, an empty world, and some clients. \<open>always_raises\<close> fails on every
  call; \<open>numbered\<close> answers call \<open>i\<close> with a well-formed question of its own;
  \<open>alternating\<close> answers the even calls with one well-formed response and the odd
  calls with a response that repeats its question after a line of commentary;
  \<open>alternating_fresh\<close> does the same with a new question on each even call.
\<close>

definition env0 :: "string \<rightharpoonup> string" where
  "env0 = [''GEMINI_API_KEY'' \<mapsto> ''secret'']"

definition argv0 :: "string list" where
  "argv0 = [''question_generator.py'', ''Python'', ''Beginner'']"

definition world0 :: world where
  "world0 = \<lparr>files = Map.empty, dirs = {}, model_calls = []\<rparr>"

definition sample_response :: "nat \<Rightarrow> string" where
  "sample_response i =
     ''Q: Question '' @ str_nat i @ ''?'' @ NL # ''A. one'' @ NL # ''B. two'' @
     NL # ''C. three'' @ NL # ''D. four'' @ NL # ''Answer: A''"

definition sample_record :: "nat \<Rightarrow> mcq" where
  "sample_record i =
     \<lparr>subject = ''Python'', level = ''Beginner'', question = ''Question '' @ str_nat i @ ''?'',
      options = [(''A'', ''one''), (''B'', ''two''), (''C'', ''three''), (''D'', ''four'')],
      correct = ''A''\<rparr>"

definition always_raises :: client where
  "always_raises i p = Raised"

definition numbered :: client where
  "numbered i p = Text (sample_response i)"

definition alternating :: client where
  "alternating i p =
     (if even i then Text (sample_response 0)
      else Text (''Once more:'' @ NL # sample_response 0))"

definition alternating_fresh :: client where
  "alternating_fresh i p =
     (if even i then Text (map sample_response [0..<10] ! (i div 2))
      else Text (''Once more:'' @ NL # sample_response 0))"

text \<open>
  \<open>same_question\<close> answers with well-formed texts that differ in their first option and
  share their question.
\<close>

definition same_question_response :: "nat \<Rightarrow> string" where
  "same_question_response i =
     ''Q: What is 2+2?'' @ NL # ''A. '' @ str_nat i @ NL # ''B. two'' @
     NL # ''C. three'' @ NL # ''D. four'' @ NL # ''Answer: A''"

definition same_question_record :: "nat \<Rightarrow> mcq" where
  "same_question_record i =
     \<lparr>subject = ''Python'', level = ''Beginner'', question = ''What is 2+2?'',
      options = [(''A'', str_nat i), (''B'', ''two''), (''C'', ''three''), (''D'', ''four'')],
      correct = ''A''\<rparr>"

definition same_question :: client where
  "same_question i p = Text (same_question_response (i mod 10))"

section \<open>Properties of the parser\<close>

subsection \<open>Single steps of the matcher\<close>


lemma is_space_NL [simp]: "is_space NL" by (simp add: is_space_def)

lemma match_Lit_append [simp]: "match_here (Lit l # r) (l @ t) = match_here r t"
  by simp

lemma match_LazyGroup_shape:
  "match_here (LazyGroup # r) s = Some gs \<Longrightarrow> \<exists>g gs'. gs = g # gs'"
  by (cases s) (auto split: option.splits list.splits)

lemma match_SpaceStar_nonspace:
  "\<not> is_space c \<Longrightarrow> match_here (SpaceStar # r) (c # cs) = match_here r (c # cs)"
  by simp

lemma match_SpaceStar_skip:
  "\<forall>x\<in>set w. is_space x \<Longrightarrow> match_here (SpaceStar # r) s = Some gs \<Longrightarrow>
   match_here (SpaceStar # r) (w @ s) = Some gs"
  by (induction w) auto

lemma match_SpaceStar_zero:
  "match_here r s = Some gs \<Longrightarrow> \<exists>gs'. match_here (SpaceStar # r) s = Some gs'"
  by (cases s) (auto split: option.splits)

lemma match_Lazy_first_line:
  "NL \<notin> set x \<Longrightarrow> match_here r t = Some gs \<Longrightarrow>
   match_here (LazyGroup # Lit (NL # l) # r) (x @ NL # l @ t) = Some (x # gs)"
  by (induction x) auto

lemma match_Lazy_no_line:
  "NL \<notin> set x \<Longrightarrow> match_here (LazyGroup # Lit (NL # l) # r) x = None"
  by (induction x) auto

lemma match_Lazy_skip_line:
  "NL \<notin> set x \<Longrightarrow> \<not> prefix l t \<Longrightarrow> match_here (LazyGroup # Lit (NL # l) # r) t = None \<Longrightarrow>
   match_here (LazyGroup # Lit (NL # l) # r) (x @ NL # t) = None"
  by (induction x) auto


lemma match_field:
  assumes f: "NL \<notin> set f" and l: "l = c # l'" "\<not> is_space c"
    and rest: "match_here r t = Some gs"
    and fail: "match_here (LazyGroup # Lit (NL # l) # r) (l @ t) = None"
  shows "match_here (SpaceStar # LazyGroup # Lit (NL # l) # r) (f @ NL # l @ t)
         = Some (dropWhile is_space f # gs)"
proof -
  let ?R = "LazyGroup # Lit (NL # l) # r"
  let ?w = "takeWhile is_space f" and ?f' = "dropWhile is_space f"
  have w: "\<forall>x\<in>set ?w. is_space x"
    by (auto dest: set_takeWhileD)
  have f': "NL \<notin> set ?f'"
    using f by (auto dest: set_dropWhileD)
  have "match_here (SpaceStar # ?R) (?f' @ NL # l @ t) = Some (?f' # gs)"
  proof (cases ?f')
    case Nil
    have a: "match_here ?R (NL # l @ t) = Some ([] # gs)"
      using rest by simp
    have b: "match_here (SpaceStar # ?R) (l @ t) = None"
      using fail l by simp
    have "match_here (SpaceStar # ?R) (NL # l @ t) =
            (case match_here (SpaceStar # ?R) (l @ t) of
               Some gs \<Rightarrow> Some gs
             | None \<Rightarrow> match_here ?R (NL # l @ t))"
      by (simp only: match_here.simps(4) is_space_NL if_True)
    then show ?thesis
      by (simp only: a b Nil append_Nil option.case)
  next
    case (Cons y ys)
    then have "\<not> is_space y"
      using hd_dropWhile [of is_space f] by auto
    then have "match_here (SpaceStar # ?R) (?f' @ NL # l @ t) = match_here ?R (?f' @ NL # l @ t)"
      using Cons by simp
    then show ?thesis
      using match_Lazy_first_line [OF f' rest, of l] by simp
  qed
  then have "match_here (SpaceStar # ?R) (?w @ ?f' @ NL # l @ t) = Some (?f' # gs)"
    by (rule match_SpaceStar_skip [OF w])
  moreover have "?w @ ?f' @ NL # l @ t = f @ NL # l @ t"
    by (metis append.assoc takeWhile_dropWhile_id)
  ultimately show ?thesis
    by simp
qed

lemma strip_dropWhile [simp]: "strip (dropWhile is_space f) = strip f"
  by (simp add: strip_def)

lemma not_space_letter: "L \<in> set ''ABCD'' \<Longrightarrow> \<not> is_space L"
  by (auto simp: is_space_def)

lemma match_answer:
  assumes "\<forall>x\<in>set ws. is_space x" "L \<in> set ''ABCD''"
  shows "match_here [SpaceStar, ClassGroup ''ABCD''] (ws @ L # post) = Some [[L]]"
proof -
  have "match_here [SpaceStar, ClassGroup ''ABCD''] (L # post) = Some [[L]]"
    using assms(2) not_space_letter [OF assms(2)] by auto
  then show ?thesis
    by (rule match_SpaceStar_skip [OF assms(1)])
qed


lemma re_search_here: "match_here p s = Some gs \<Longrightarrow> re_search p s = Some gs"
  by (cases s) auto

subsection \<open>A response in the expected layout\<close>

text \<open>
  Claim C1. A response in the expected layout is a line \<^verbatim>\<open>Q:\<close> with the question, the
  four lines \<^verbatim>\<open>A.\<close>, \<^verbatim>\<open>B.\<close>, \<^verbatim>\<open>C.\<close>, \<^verbatim>\<open>D.\<close> with the options and a last line
  \<^verbatim>\<open>Answer:\<close> with white space and one of the letters A, B, C, D (and whatever else
  stands on that line); no field holds a line break. On every such text \<open>parse_mcq\<close>
  returns the record whose question and four options are the fields of the text, each
  stripped of the white space at both ends, and whose correct answer is the letter.
\<close>

theorem parse_mcq_layout:
  assumes layout: "text = ''Q:'' @ q @ NL # ''A.'' @ a @ NL # ''B.'' @ b @ NL # ''C.'' @ c @
                        NL # ''D.'' @ d @ NL # ''Answer:'' @ ws @ L # post"
    and q: "NL \<notin> set q" and a: "NL \<notin> set a" and b: "NL \<notin> set b"
    and c: "NL \<notin> set c" and d: "NL \<notin> set d" and post: "NL \<notin> set post"
    and ws: "\<forall>x\<in>set ws. is_space x \<and> x \<noteq> NL" and L: "L \<in> set ''ABCD''"
  shows "parse_mcq subj lvl text =
           Some \<lparr>subject = subj, level = lvl, question = strip q,
                  options = [(''A'', strip a), (''B'', strip b), (''C'', strip c), (''D'', strip d)],
                  correct = [L]\<rparr>"
proof -
  define tE where "tE = ws @ L # post"
  define tD where "tD = d @ NL # ''Answer:'' @ tE"
  define tC where "tC = c @ NL # ''D.'' @ tD"
  define tB where "tB = b @ NL # ''C.'' @ tC"
  define tA where "tA = a @ NL # ''B.'' @ tB"
  define pE where "pE = [SpaceStar, ClassGroup ''ABCD'']"
  define pD where "pD = SpaceStar # LazyGroup # Lit (NL # ''Answer:'') # pE"
  define pC where "pC = SpaceStar # LazyGroup # Lit (NL # ''D.'') # pD"
  define pB where "pB = SpaceStar # LazyGroup # Lit (NL # ''C.'') # pC"
  define pA where "pA = SpaceStar # LazyGroup # Lit (NL # ''B.'') # pB"
  have nE: "match_here (LazyGroup # Lit (NL # l) # r) (''Answer:'' @ tE) = None" for l r
    using ws L post by (intro match_Lazy_no_line) (auto simp: tE_def)
  have nD: "match_here (LazyGroup # Lit (NL # l) # r) (''D.'' @ tD) = None"
    if "\<not> prefix l (''Answer:'' @ tE)" for l r
    using match_Lazy_skip_line [of "''D.'' @ d" l "''Answer:'' @ tE" r] that d nE
    by (simp add: tD_def)
  have nC: "match_here (LazyGroup # Lit (NL # l) # r) (''C.'' @ tC) = None"
    if "\<not> prefix l (''Answer:'' @ tE)" "\<not> prefix l (''D.'' @ tD)" for l r
    using match_Lazy_skip_line [of "''C.'' @ c" l "''D.'' @ tD" r] that c nD
    by (simp add: tC_def)
  have nB: "match_here (LazyGroup # Lit (NL # l) # r) (''B.'' @ tB) = None"
    if "\<not> prefix l (''Answer:'' @ tE)" "\<not> prefix l (''D.'' @ tD)" "\<not> prefix l (''C.'' @ tC)"
    for l r
    using match_Lazy_skip_line [of "''B.'' @ b" l "''C.'' @ tC" r] that b nC
    by (simp add: tB_def)
  have nA: "match_here (LazyGroup # Lit (NL # l) # r) (''A.'' @ tA) = None"
    if "\<not> prefix l (''Answer:'' @ tE)" "\<not> prefix l (''D.'' @ tD)" "\<not> prefix l (''C.'' @ tC)"
      "\<not> prefix l (''B.'' @ tB)" for l r
    using match_Lazy_skip_line [of "''A.'' @ a" l "''B.'' @ tB" r] that a nB
    by (simp add: tA_def)
  have sp: "\<not> is_space CHR ''A''" "\<not> is_space CHR ''B''" "\<not> is_space CHR ''C''"
    "\<not> is_space CHR ''D''"
    by (simp_all add: is_space_def)
  have mE: "match_here pE tE = Some [[L]]"
    unfolding pE_def tE_def using ws L by (intro match_answer) auto
  have mD: "match_here pD tD = Some [dropWhile is_space d, [L]]"
    unfolding pD_def tD_def
    by (rule match_field [OF d _ sp(1) mE nE]) simp
  have mC: "match_here pC tC = Some [dropWhile is_space c, dropWhile is_space d, [L]]"
    unfolding pC_def tC_def
    by (rule match_field [OF c _ sp(4) mD nD]) simp_all
  have mB: "match_here pB tB =
      Some [dropWhile is_space b, dropWhile is_space c, dropWhile is_space d, [L]]"
    unfolding pB_def tB_def
    by (rule match_field [OF b _ sp(3) mC nC]) simp_all
  have mA: "match_here pA tA =
      Some [dropWhile is_space a, dropWhile is_space b, dropWhile is_space c,
            dropWhile is_space d, [L]]"
    unfolding pA_def tA_def
    by (rule match_field [OF a _ sp(2) mB nB]) simp_all
  have mQ: "match_here (SpaceStar # LazyGroup # Lit (NL # ''A.'') # pA) (q @ NL # ''A.'' @ tA) =
      Some [dropWhile is_space q, dropWhile is_space a, dropWhile is_space b,
            dropWhile is_space c, dropWhile is_space d, [L]]"
    by (rule match_field [OF q _ sp(1) mA nA]) simp_all
  have pat: "mcq_pattern = Lit ''Q:'' # SpaceStar # LazyGroup # Lit (NL # ''A.'') # pA"
    by (simp add: mcq_pattern_def pA_def pB_def pC_def pD_def pE_def)
  have shape: "text = ''Q:'' @ q @ NL # ''A.'' @ tA"
    by (simp add: layout tA_def tB_def tC_def tD_def tE_def)
  have "match_here mcq_pattern text =
      Some [dropWhile is_space q, dropWhile is_space a, dropWhile is_space b,
            dropWhile is_space c, dropWhile is_space d, [L]]"
    unfolding pat shape by (simp only: match_Lit_append mQ)
  then have "re_search mcq_pattern text =
      Some [dropWhile is_space q, dropWhile is_space a, dropWhile is_space b,
            dropWhile is_space c, dropWhile is_space d, [L]]"
    by (rule re_search_here)
  moreover have "strip [L] = [L]"
    using not_space_letter [OF L] by (simp add: strip_def)
  ultimately show ?thesis
    by (simp add: parse_mcq_def)
qed

theorem parse_mcq_layout_witness:
  "parse_mcq ''Python'' ''Beginner''
     (''Q: What is 2+2? '' @ NL # ''A. 3'' @ NL # ''B.  4 '' @ NL # ''C.'' @ NL # ''D. 22'' @
      NL # ''Answer: B'') =
   Some \<lparr>subject = ''Python'', level = ''Beginner'', question = ''What is 2+2?'',
          options = [(''A'', ''3''), (''B'', ''4''), (''C'', []), (''D'', ''22'')],
          correct = ''B''\<rparr>"
  using parse_mcq_layout [where q = "'' What is 2+2? ''" and a = "'' 3''" and b = "''  4 ''"
      and c = "[]" and d = "'' 22''" and ws = "'' ''" and L = "CHR ''B''" and post = "[]"
      and subj = "''Python''" and lvl = "''Beginner''", OF refl]
  by (simp add: strip_def is_space_def)

subsection \<open>Where the parser succeeds\<close>

lemma match_Lit_D:
  "match_here (Lit l # r) s = Some gs \<Longrightarrow> \<exists>t. s = l @ t \<and> match_here r t = Some gs"
  by (auto simp: prefix_def split: if_splits)

lemma match_SpaceStar_D:
  "match_here (SpaceStar # r) s = Some gs \<Longrightarrow>
   \<exists>w t. s = w @ t \<and> (\<forall>x\<in>set w. is_space x) \<and> match_here r t = Some gs"
proof (induction s)
  case Nil
  then show ?case by simp
next
  case (Cons c cs)
  show ?case
  proof (cases "is_space c \<and> match_here (SpaceStar # r) cs = Some gs")
    case True
    with Cons.IH obtain w t where "cs = w @ t" "\<forall>x\<in>set w. is_space x" "match_here r t = Some gs"
      by blast
    with True have "c # cs = (c # w) @ t \<and> (\<forall>x\<in>set (c # w). is_space x) \<and> match_here r t = Some gs"
      by simp
    then show ?thesis by blast
  next
    case False
    with Cons.prems have "match_here r (c # cs) = Some gs"
      by (auto split: if_splits option.splits)
    then have "c # cs = [] @ (c # cs) \<and> (\<forall>x\<in>set []. is_space x) \<and> match_here r (c # cs) = Some gs"
      by simp
    then show ?thesis by blast
  qed
qed

lemma match_LazyGroup_D:
  "match_here (LazyGroup # r) s = Some gs \<Longrightarrow>
   \<exists>x t gs'. s = x @ t \<and> gs = x # gs' \<and> match_here r t = Some gs'"
proof (induction s arbitrary: gs)
  case Nil
  then show ?case by (auto split: option.splits)
next
  case (Cons c cs)
  show ?case
  proof (cases "match_here r (c # cs)")
    case (Some gs')
    with Cons.prems have "c # cs = [] @ (c # cs) \<and> gs = [] # gs' \<and> match_here r (c # cs) = Some gs'"
      by simp
    then show ?thesis by blast
  next
    case None
    with Cons.prems obtain g gs1 where g: "match_here (LazyGroup # r) cs = Some (g # gs1)" "gs = (c # g) # gs1"
      by (auto split: option.splits list.splits)
    from Cons.IH [OF g(1)] obtain x t gs' where "cs = x @ t" "g # gs1 = x # gs'" "match_here r t = Some gs'"
      by blast
    with g(2) have "c # cs = (c # x) @ t \<and> gs = (c # x) # gs' \<and> match_here r t = Some gs'"
      by simp
    then show ?thesis by blast
  qed
qed

lemma match_ClassGroup_D:
  "match_here (ClassGroup cls # r) s = Some gs \<Longrightarrow>
   \<exists>c t gs'. s = c # t \<and> c \<in> set cls \<and> gs = [c] # gs' \<and> match_here r t = Some gs'"
  by (cases s) (auto split: if_splits option.splits)

lemma re_search_D:
  "re_search p s = Some gs \<Longrightarrow> \<exists>pre t. s = pre @ t \<and> match_here p t = Some gs"
proof (induction s)
  case Nil
  then show ?case by simp
next
  case (Cons c cs)
  show ?case
  proof (cases "match_here p (c # cs)")
    case None
    with Cons obtain pre t where "cs = pre @ t" "match_here p t = Some gs"
      by auto
    then have "c # cs = (c # pre) @ t \<and> match_here p t = Some gs"
      by simp
    then show ?thesis by blast
  next
    case (Some a)
    with Cons.prems have "c # cs = [] @ (c # cs) \<and> match_here p (c # cs) = Some gs"
      by simp
    then show ?thesis by blast
  qed
qed

lemma match_field_D:
  assumes "match_here (SpaceStar # LazyGroup # Lit l # r) s = Some gs"
  shows "\<exists>f t g gs'. s = f @ l @ t \<and> gs = g # gs' \<and> match_here r t = Some gs'"
proof -
  from match_SpaceStar_D [OF assms] obtain w t1
    where 1: "s = w @ t1" "match_here (LazyGroup # Lit l # r) t1 = Some gs"
    by blast
  from match_LazyGroup_D [OF 1(2)] obtain x t2 gs'
    where 2: "t1 = x @ t2" "gs = x # gs'" "match_here (Lit l # r) t2 = Some gs'"
    by blast
  from match_Lit_D [OF 2(3)] obtain t where 3: "t2 = l @ t" "match_here r t = Some gs'"
    by blast
  have "s = (w @ x) @ l @ t \<and> gs = x # gs' \<and> match_here r t = Some gs'"
    using 1(1) 2(1,2) 3 by simp
  then show ?thesis by blast
qed

lemma match_answer_D:
  assumes "match_here [SpaceStar, ClassGroup cls] s = Some gs"
  shows "\<exists>ws L post. s = ws @ L # post \<and> (\<forall>x\<in>set ws. is_space x) \<and> L \<in> set cls \<and> gs = [[L]]"
proof -
  from match_SpaceStar_D [OF assms] obtain ws t
    where 1: "s = ws @ t" "\<forall>x\<in>set ws. is_space x" "match_here [ClassGroup cls] t = Some gs"
    by blast
  from match_ClassGroup_D [OF 1(3)] obtain L post gs'
    where 2: "t = L # post" "L \<in> set cls" "gs = [L] # gs'" "match_here [] post = Some gs'"
    by blast
  then have "gs = [[L]]" by simp
  with 1 2 show ?thesis by blast
qed

lemma match_mcq_D:
  assumes "match_here mcq_pattern s = Some gs"
  shows "\<exists>q a b c d ws L post g1 g2 g3 g4 g5.
           s = ''Q:'' @ q @ NL # ''A.'' @ a @ NL # ''B.'' @ b @ NL # ''C.'' @ c @
               NL # ''D.'' @ d @ NL # ''Answer:'' @ ws @ L # post \<and>
           (\<forall>x\<in>set ws. is_space x) \<and> L \<in> set ''ABCD'' \<and> gs = [g1, g2, g3, g4, g5, [L]]"
proof -
  from assms obtain t0 where 0: "s = ''Q:'' @ t0"
    "match_here (SpaceStar # LazyGroup # Lit (NL # ''A.'') # SpaceStar # LazyGroup #
       Lit (NL # ''B.'') # SpaceStar # LazyGroup # Lit (NL # ''C.'') # SpaceStar # LazyGroup #
       Lit (NL # ''D.'') # SpaceStar # LazyGroup # Lit (NL # ''Answer:'') #
       [SpaceStar, ClassGroup ''ABCD'']) t0 = Some gs"
    unfolding mcq_pattern_def by (blast dest: match_Lit_D)
  from match_field_D [OF 0(2)] obtain q tA g1 gsA where A: "t0 = q @ (NL # ''A.'') @ tA"
    "gs = g1 # gsA"
    "match_here (SpaceStar # LazyGroup #
       Lit (NL # ''B.'') # SpaceStar # LazyGroup # Lit (NL # ''C.'') # SpaceStar # LazyGroup #
       Lit (NL # ''D.'') # SpaceStar # LazyGroup # Lit (NL # ''Answer:'') #
       [SpaceStar, ClassGroup ''ABCD'']) tA = Some gsA"
    by blast
  from match_field_D [OF A(3)] obtain a tB g2 gsB where B: "tA = a @ (NL # ''B.'') @ tB"
    "gsA = g2 # gsB"
    "match_here (SpaceStar # LazyGroup # Lit (NL # ''C.'') # SpaceStar # LazyGroup #
       Lit (NL # ''D.'') # SpaceStar # LazyGroup # Lit (NL # ''Answer:'') #
       [SpaceStar, ClassGroup ''ABCD'']) tB = Some gsB"
    by blast
  from match_field_D [OF B(3)] obtain b tC g3 gsC where C: "tB = b @ (NL # ''C.'') @ tC"
    "gsB = g3 # gsC"
    "match_here (SpaceStar # LazyGroup #
       Lit (NL # ''D.'') # SpaceStar # LazyGroup # Lit (NL # ''Answer:'') #
       [SpaceStar, ClassGroup ''ABCD'']) tC = Some gsC"
    by blast
  from match_field_D [OF C(3)] obtain c tD g4 gsD where D: "tC = c @ (NL # ''D.'') @ tD"
    "gsC = g4 # gsD"
    "match_here (SpaceStar # LazyGroup # Lit (NL # ''Answer:'') #
       [SpaceStar, ClassGroup ''ABCD'']) tD = Some gsD"
    by blast
  from match_field_D [OF D(3)] obtain d tE g5 gsE where E: "tD = d @ (NL # ''Answer:'') @ tE"
    "gsD = g5 # gsE"
    "match_here [SpaceStar, ClassGroup ''ABCD''] tE = Some gsE"
    by blast
  from match_answer_D [OF E(3)] obtain ws L post where F: "tE = ws @ L # post"
    "\<forall>x\<in>set ws. is_space x" "L \<in> set ''ABCD''" "gsE = [[L]]"
    by blast
  have "s = ''Q:'' @ q @ NL # ''A.'' @ a @ NL # ''B.'' @ b @ NL # ''C.'' @ c @
               NL # ''D.'' @ d @ NL # ''Answer:'' @ ws @ L # post"
    by (simp add: 0(1) A(1) B(1) C(1) D(1) E(1) F(1))
  moreover have "gs = [g1, g2, g3, g4, g5, [L]]"
    by (simp add: A(2) B(2) C(2) D(2) E(2) F(4))
  ultimately show ?thesis
    using F(2,3) by blast
qed

lemma match_LazyGroup_I:
  "match_here r t = Some gs \<Longrightarrow> \<exists>gs'. match_here (LazyGroup # r) (x @ t) = Some gs'"
proof (induction x)
  case Nil
  then show ?case by (cases t) auto
next
  case (Cons c x)
  then obtain gs' where gs': "match_here (LazyGroup # r) (x @ t) = Some gs'"
    by blast
  then obtain g gs1 where "gs' = g # gs1"
    using match_LazyGroup_shape by blast
  with gs' show ?case
    by (cases "match_here r (c # x @ t)") auto
qed

lemma match_field_I:
  assumes "match_here r t = Some gs"
  shows "\<exists>gs'. match_here (SpaceStar # LazyGroup # Lit l # r) (f @ l @ t) = Some gs'"
proof -
  have "match_here (Lit l # r) (l @ t) = Some gs"
    using assms by simp
  then obtain gs1 where "match_here (LazyGroup # Lit l # r) (f @ l @ t) = Some gs1"
    using match_LazyGroup_I by blast
  then show ?thesis
    by (rule match_SpaceStar_zero)
qed

lemma re_search_I:
  "match_here p t = Some gs \<Longrightarrow> \<exists>gs'. re_search p (pre @ t) = Some gs'"
proof (induction pre)
  case Nil
  then show ?case by (simp add: re_search_here)
next
  case (Cons c pre)
  then show ?case
    by (cases "match_here p (c # pre @ t)") auto
qed

lemma match_mcq_I:
  assumes "\<forall>x\<in>set ws. is_space x" "L \<in> set ''ABCD''"
  shows "\<exists>gs. match_here mcq_pattern
           (''Q:'' @ q @ NL # ''A.'' @ a @ NL # ''B.'' @ b @ NL # ''C.'' @ c @
            NL # ''D.'' @ d @ NL # ''Answer:'' @ ws @ L # post) = Some gs"
proof -
  have "match_here [SpaceStar, ClassGroup ''ABCD''] (ws @ L # post) = Some [[L]]"
    using assms by (rule match_answer)
  from match_field_I [OF this, of "NL # ''Answer:''" d]
  obtain gsD where "match_here (SpaceStar # LazyGroup # Lit (NL # ''Answer:'') #
       [SpaceStar, ClassGroup ''ABCD'']) (d @ (NL # ''Answer:'') @ ws @ L # post) = Some gsD"
    by blast
  from match_field_I [OF this, of "NL # ''D.''" c]
  obtain gsC where "match_here (SpaceStar # LazyGroup #
       Lit (NL # ''D.'') # SpaceStar # LazyGroup # Lit (NL # ''Answer:'') #
       [SpaceStar, ClassGroup ''ABCD''])
       (c @ (NL # ''D.'') @ d @ (NL # ''Answer:'') @ ws @ L # post) = Some gsC"
    by blast
  from match_field_I [OF this, of "NL # ''C.''" b]
  obtain gsB where "match_here (SpaceStar # LazyGroup # Lit (NL # ''C.'') # SpaceStar # LazyGroup #
       Lit (NL # ''D.'') # SpaceStar # LazyGroup # Lit (NL # ''Answer:'') #
       [SpaceStar, ClassGroup ''ABCD''])
       (b @ (NL # ''C.'') @ c @ (NL # ''D.'') @ d @ (NL # ''Answer:'') @ ws @ L # post) = Some gsB"
    by blast
  from match_field_I [OF this, of "NL # ''B.''" a]
  obtain gsA where "match_here (SpaceStar # LazyGroup #
       Lit (NL # ''B.'') # SpaceStar # LazyGroup # Lit (NL # ''C.'') # SpaceStar # LazyGroup #
       Lit (NL # ''D.'') # SpaceStar # LazyGroup # Lit (NL # ''Answer:'') #
       [SpaceStar, ClassGroup ''ABCD''])
       (a @ (NL # ''B.'') @ b @ (NL # ''C.'') @ c @ (NL # ''D.'') @ d @ (NL # ''Answer:'') @
        ws @ L # post) = Some gsA"
    by blast
  from match_field_I [OF this, of "NL # ''A.''" q]
  obtain gs where "match_here (SpaceStar # LazyGroup # Lit (NL # ''A.'') # SpaceStar # LazyGroup #
       Lit (NL # ''B.'') # SpaceStar # LazyGroup # Lit (NL # ''C.'') # SpaceStar # LazyGroup #
       Lit (NL # ''D.'') # SpaceStar # LazyGroup # Lit (NL # ''Answer:'') #
       [SpaceStar, ClassGroup ''ABCD''])
       (q @ (NL # ''A.'') @ a @ (NL # ''B.'') @ b @ (NL # ''C.'') @ c @ (NL # ''D.'') @ d @
        (NL # ''Answer:'') @ ws @ L # post) = Some gs"
    by blast
  then have "match_here mcq_pattern
           (''Q:'' @ q @ NL # ''A.'' @ a @ NL # ''B.'' @ b @ NL # ''C.'' @ c @
            NL # ''D.'' @ d @ NL # ''Answer:'' @ ws @ L # post) = Some gs"
    by (simp add: mcq_pattern_def)
  then show ?thesis ..
qed

lemma parse_mcq_Some_iff:
  "(\<exists>r. parse_mcq subj lvl text = Some r) \<longleftrightarrow>
   (\<exists>pre q a b c d ws L post.
      text = pre @ ''Q:'' @ q @ NL # ''A.'' @ a @ NL # ''B.'' @ b @ NL # ''C.'' @ c @
             NL # ''D.'' @ d @ NL # ''Answer:'' @ ws @ L # post \<and>
      (\<forall>x\<in>set ws. is_space x) \<and> L \<in> set ''ABCD'')"
  (is "?lhs \<longleftrightarrow> ?rhs")
proof
  assume ?lhs
  then obtain gs where "re_search mcq_pattern text = Some gs"
    by (auto simp: parse_mcq_def split: option.splits)
  then obtain pre s where s: "text = pre @ s" "match_here mcq_pattern s = Some gs"
    using re_search_D by blast
  from match_mcq_D [OF s(2)] s(1) show ?rhs
    by blast
next
  assume ?rhs
  then obtain pre q a b c d ws L post where t:
    "text = pre @ ''Q:'' @ q @ NL # ''A.'' @ a @ NL # ''B.'' @ b @ NL # ''C.'' @ c @
             NL # ''D.'' @ d @ NL # ''Answer:'' @ ws @ L # post"
    "\<forall>x\<in>set ws. is_space x" "L \<in> set ''ABCD''"
    by blast
  from match_mcq_I [OF t(2,3)] obtain gs0 where "match_here mcq_pattern
           (''Q:'' @ q @ NL # ''A.'' @ a @ NL # ''B.'' @ b @ NL # ''C.'' @ c @
            NL # ''D.'' @ d @ NL # ''Answer:'' @ ws @ L # post) = Some gs0"
    by blast
  from re_search_I [OF this, of pre] t(1) obtain gs where gs: "re_search mcq_pattern text = Some gs"
    by auto
  then obtain pre' s where "match_here mcq_pattern s = Some gs"
    using re_search_D by blast
  from match_mcq_D [OF this] obtain g1 g2 g3 g4 g5 g6 where "gs = [g1, g2, g3, g4, g5, g6]"
    by blast
  with gs show ?lhs
    by (simp add: parse_mcq_def)
qed

text \<open>
  Claim C2, as amended. \<^verbatim>\<open>parse_mcq\<close> searches the text for the pattern and does not
  require it to cover the whole text: it returns a record exactly when the text holds, in
  this order, \<^verbatim>\<open>Q:\<close>, then at the start of a line each \<^verbatim>\<open>A.\<close>, \<^verbatim>\<open>B.\<close>, \<^verbatim>\<open>C.\<close>,
  \<^verbatim>\<open>D.\<close> and \<^verbatim>\<open>Answer:\<close>, the last followed by white space (possibly none) and one of
  the letters A, B, C, D. A text with no such occurrence is rejected and produces no
  record; text before \<^verbatim>\<open>Q:\<close> and after the answer letter is ignored.
\<close>

theorem parse_mcq_search:
  "parse_mcq subj lvl text \<noteq> None \<longleftrightarrow>
   (\<exists>pre q a b c d ws L post.
      text = pre @ ''Q:'' @ q @ NL # ''A.'' @ a @ NL # ''B.'' @ b @ NL # ''C.'' @ c @
             NL # ''D.'' @ d @ NL # ''Answer:'' @ ws @ L # post \<and>
      (\<forall>x\<in>set ws. is_space x) \<and> L \<in> set ''ABCD'')"
  using parse_mcq_Some_iff [of subj lvl "text"] by simp

theorem parse_mcq_search_witness:
  "parse_mcq ''Python'' ''Beginner''
     (''Sure:'' @ ''Q:'' @ '' What?'' @ NL # ''A.'' @ '' 3'' @ NL # ''B.'' @ '' 4'' @
      NL # ''C.'' @ '' 5'' @ NL # ''D.'' @ '' 6'' @ NL # ''Answer:'' @ '' '' @ CHR ''B'' # ''!'')
   \<noteq> None"
proof -
  have h: "(\<forall>x\<in>set '' ''. is_space x) \<and> CHR ''B'' \<in> set ''ABCD''"
    by (simp add: is_space_def)
  then have "\<exists>pre q a b c d ws L post.
      ''Sure:'' @ ''Q:'' @ '' What?'' @ NL # ''A.'' @ '' 3'' @ NL # ''B.'' @ '' 4'' @
      NL # ''C.'' @ '' 5'' @ NL # ''D.'' @ '' 6'' @ NL # ''Answer:'' @ '' '' @ CHR ''B'' # ''!'' =
      pre @ ''Q:'' @ q @ NL # ''A.'' @ a @ NL # ''B.'' @ b @ NL # ''C.'' @ c @
             NL # ''D.'' @ d @ NL # ''Answer:'' @ ws @ L # post \<and>
      (\<forall>x\<in>set ws. is_space x) \<and> L \<in> set ''ABCD''"
    by blast
  then show ?thesis
    using h parse_mcq_search [of "''Python''" "''Beginner''"] by blast
qed

text \<open>
  The claim as first stated (commentary before or after the question block makes the
  parser reject the text) fails on a response with a sentence before the block and one
  after it.
\<close>

theorem parse_mcq_commentary_counterexample:
  "parse_mcq ''Python'' ''Beginner''
     (''Sure! Here is one:'' @ NL # ''Q: What is 2+2?'' @ NL # ''A. 3'' @ NL # ''B. 4'' @
      NL # ''C. 5'' @ NL # ''D. 22'' @ NL # ''Answer: B'' @ NL # ''Hope this helps.'') =
   Some \<lparr>subject = ''Python'', level = ''Beginner'', question = ''What is 2+2?'',
          options = [(''A'', ''3''), (''B'', ''4''), (''C'', ''5''), (''D'', ''22'')],
          correct = ''B''\<rparr>"
  by (simp add: parse_mcq_def mcq_pattern_def is_space_def strip_def)

text \<open>
  Claim C3, as amended. When \<^verbatim>\<open>Q:\<close> occurs nowhere in the text, or no line starts with
  one of the option labels \<^verbatim>\<open>A.\<close>, \<^verbatim>\<open>B.\<close>, \<^verbatim>\<open>C.\<close>, \<^verbatim>\<open>D.\<close> (in particular when the
  label occurs nowhere), or no line starts with \<^verbatim>\<open>Answer:\<close> followed by white space
  (line breaks included, possibly none) and one of the letters A, B, C, D, then
  \<^verbatim>\<open>parse_mcq\<close> returns \<open>None\<close>: there is no record, and so no partly filled one.
\<close>

theorem parse_mcq_missing:
  assumes "\<not> sublist ''Q:'' text \<or> \<not> sublist (NL # ''A.'') text \<or>
           \<not> sublist (NL # ''B.'') text \<or> \<not> sublist (NL # ''C.'') text \<or>
           \<not> sublist (NL # ''D.'') text \<or>
           \<not> (\<exists>ws L. (\<forall>x\<in>set ws. is_space x) \<and> L \<in> set ''ABCD'' \<and>
                  sublist (NL # ''Answer:'' @ ws @ [L]) text)"
  shows "parse_mcq subj lvl text = None"
proof (rule ccontr)
  assume "parse_mcq subj lvl text \<noteq> None"
  then obtain pre q a b c d ws L post where t:
    "text = pre @ ''Q:'' @ q @ NL # ''A.'' @ a @ NL # ''B.'' @ b @ NL # ''C.'' @ c @
             NL # ''D.'' @ d @ NL # ''Answer:'' @ ws @ L # post"
    "\<forall>x\<in>set ws. is_space x" "L \<in> set ''ABCD''"
    using parse_mcq_Some_iff [of subj lvl "text"] by auto
  have "text = pre @ ''Q:'' @ (q @ NL # ''A.'' @ a @ NL # ''B.'' @ b @ NL # ''C.'' @ c @
             NL # ''D.'' @ d @ NL # ''Answer:'' @ ws @ L # post)"
    using t(1) by simp
  then have Q: "sublist ''Q:'' text"
    unfolding sublist_def by blast
  have "text = (pre @ ''Q:'' @ q) @ (NL # ''A.'') @ (a @ NL # ''B.'' @ b @ NL # ''C.'' @ c @
             NL # ''D.'' @ d @ NL # ''Answer:'' @ ws @ L # post)"
    using t(1) by simp
  then have A: "sublist (NL # ''A.'') text"
    unfolding sublist_def by blast
  have "text = (pre @ ''Q:'' @ q @ NL # ''A.'' @ a) @ (NL # ''B.'') @ (b @ NL # ''C.'' @ c @
             NL # ''D.'' @ d @ NL # ''Answer:'' @ ws @ L # post)"
    using t(1) by simp
  then have B: "sublist (NL # ''B.'') text"
    unfolding sublist_def by blast
  have "text = (pre @ ''Q:'' @ q @ NL # ''A.'' @ a @ NL # ''B.'' @ b) @ (NL # ''C.'') @ (c @
             NL # ''D.'' @ d @ NL # ''Answer:'' @ ws @ L # post)"
    using t(1) by simp
  then have C: "sublist (NL # ''C.'') text"
    unfolding sublist_def by blast
  have "text = (pre @ ''Q:'' @ q @ NL # ''A.'' @ a @ NL # ''B.'' @ b @ NL # ''C.'' @ c) @
             (NL # ''D.'') @ (d @ NL # ''Answer:'' @ ws @ L # post)"
    using t(1) by simp
  then have D: "sublist (NL # ''D.'') text"
    unfolding sublist_def by blast
  have "text = (pre @ ''Q:'' @ q @ NL # ''A.'' @ a @ NL # ''B.'' @ b @ NL # ''C.'' @ c @
             NL # ''D.'' @ d) @ (NL # ''Answer:'' @ ws @ [L]) @ post"
    using t(1) by simp
  then have "sublist (NL # ''Answer:'' @ ws @ [L]) text"
    unfolding sublist_def by blast
  then have E: "\<exists>ws L. (\<forall>x\<in>set ws. is_space x) \<and> L \<in> set ''ABCD'' \<and>
                  sublist (NL # ''Answer:'' @ ws @ [L]) text"
    using t(2,3) by blast
  from assms Q A B C D E show False
    by blast
qed

theorem parse_mcq_missing_witness:
  "\<not> sublist (NL # ''B.'')
       (''Q: What?'' @ NL # ''A. 3'' @ NL # ''C. 5'' @ NL # ''D. 6'' @ NL # ''Answer: A'') \<and>
   parse_mcq ''Python'' ''Beginner''
       (''Q: What?'' @ NL # ''A. 3'' @ NL # ''C. 5'' @ NL # ''D. 6'' @ NL # ''Answer: A'') = None"
proof -
  have h: "\<not> sublist (NL # ''B.'')
       (''Q: What?'' @ NL # ''A. 3'' @ NL # ''C. 5'' @ NL # ''D. 6'' @ NL # ''Answer: A'')"
    by (simp add: sublist_Cons_right)
  then show ?thesis
    using parse_mcq_missing [of "''Q: What?'' @ NL # ''A. 3'' @ NL # ''C. 5'' @ NL # ''D. 6'' @ NL # ''Answer: A''" "''Python''" "''Beginner''"]
    by blast
qed

text \<open>
  The claim as first stated asks for a line that starts with \<^verbatim>\<open>Q:\<close> and for a letter on
  the \<^verbatim>\<open>Answer:\<close> line. The pattern asks for neither: a text whose first line is
  \<^verbatim>\<open>FAQ: What is 2+2?\<close> has no line that starts with \<^verbatim>\<open>Q:\<close> and parses to a record,
  and a text whose \<^verbatim>\<open>Answer:\<close> line is empty and is followed by the line
  \<^verbatim>\<open>All of the above\<close> parses with the correct answer A.
\<close>

theorem parse_mcq_missing_counterexample:
  "parse_mcq ''Python'' ''Beginner''
     (''FAQ: What is 2+2?'' @ NL # ''A. 3'' @ NL # ''B. 4'' @ NL # ''C. 5'' @ NL # ''D. 22'' @
      NL # ''Answer: B'') =
   Some \<lparr>subject = ''Python'', level = ''Beginner'', question = ''What is 2+2?'',
          options = [(''A'', ''3''), (''B'', ''4''), (''C'', ''5''), (''D'', ''22'')],
          correct = ''B''\<rparr> \<and>
   parse_mcq ''Python'' ''Beginner''
     (''Q: Which holds?'' @ NL # ''A. 3'' @ NL # ''B. 4'' @ NL # ''C. 5'' @ NL # ''D. 22'' @
      NL # ''Answer:'' @ NL # ''All of the above'') =
   Some \<lparr>subject = ''Python'', level = ''Beginner'', question = ''Which holds?'',
          options = [(''A'', ''3''), (''B'', ''4''), (''C'', ''5''), (''D'', ''22'')],
          correct = ''A''\<rparr>"
  by (simp add: parse_mcq_def mcq_pattern_def is_space_def strip_def)

section \<open>Properties of the accumulator loop\<close>

subsection \<open>One pass through the body\<close>

lemma tries_loop_body: "tries (loop_body model subj lvl st) = tries st + 1"
  by (simp add: loop_body_def Let_def split: outcome.split option.split)

lemma calls_loop_body:
  "calls (loop_body model subj lvl st) = calls st @ [build_prompt subj lvl (length (dataset st))]"
  by (simp add: loop_body_def Let_def split: outcome.split option.split)

lemma length_dataset_loop_body:
  "length (dataset (loop_body model subj lvl st)) \<le> length (dataset st) + 1"
  by (simp add: loop_body_def Let_def split: outcome.split option.split)

lemma distinct_loop_body:
  assumes "distinct (map question (dataset st))"
    and "seen_questions st = set (map question (dataset st))"
  shows "distinct (map question (dataset (loop_body model subj lvl st))) \<and>
         seen_questions (loop_body model subj lvl st) =
           set (map question (dataset (loop_body model subj lvl st)))"
  using assms by (auto simp: loop_body_def Let_def split: outcome.split option.split)

lemma while_loop_visited:
  "visited model subj lvl st0 st \<Longrightarrow> visited model subj lvl st0 (while_loop model subj lvl st)"
proof (induction model subj lvl st rule: while_loop.induct)
  case (1 model subj lvl st)
  show ?case
  proof (cases "length (dataset st) < 10 \<and> tries st < 30")
    case True
    then have "visited model subj lvl st0 (loop_body model subj lvl st)"
      using "1.prems" by (intro visited_step)
    with True "1.IH" show ?thesis
      by (simp add: while_loop.simps [of model subj lvl st])
  next
    case False
    with "1.prems" show ?thesis
      by (auto simp: while_loop.simps [of model subj lvl st])
  qed
qed

lemma while_loop_stops:
  "\<not> (length (dataset (while_loop model subj lvl st)) < 10 \<and> tries (while_loop model subj lvl st) < 30)"
proof (induction model subj lvl st rule: while_loop.induct)
  case (1 model subj lvl st)
  then show ?case
    by (cases "length (dataset st) < 10 \<and> tries st < 30")
       (auto simp: while_loop.simps [of model subj lvl st])
qed

lemma visited_bounds:
  "visited model subj lvl (init_state w) st \<Longrightarrow>
   length (dataset st) \<le> 10 \<and> tries st \<le> 30 \<and>
   length (calls st) = length (model_calls w) + tries st"
proof (induction rule: visited.induct)
  case visited_start
  then show ?case by (simp add: init_state_def)
next
  case (visited_step st)
  then show ?case
    using length_dataset_loop_body [of model subj lvl st]
    by (simp add: tries_loop_body calls_loop_body)
qed

lemma visited_distinct:
  "visited model subj lvl (init_state w) st \<Longrightarrow>
   distinct (map question (dataset st)) \<and> seen_questions st = set (map question (dataset st))"
proof (induction rule: visited.induct)
  case visited_start
  then show ?case by (simp add: init_state_def)
next
  case (visited_step st)
  then show ?case
    using distinct_loop_body [of st model subj lvl] by blast
qed

lemma while_loop_run:
  assumes step: "\<And>k. k < n \<Longrightarrow>
      length (dataset (S k)) < 10 \<and> tries (S k) < 30 \<and>
      loop_body model subj lvl (S k) = S (Suc k)"
    and stop: "\<not> (length (dataset (S n)) < 10 \<and> tries (S n) < 30)"
  shows "k0 \<le> n \<Longrightarrow> while_loop model subj lvl (S k0) = S n"
proof (induction "n - k0" arbitrary: k0)
  case 0
  then have "k0 = n" by simp
  with stop show ?case
    by (auto simp: while_loop.simps [of model subj lvl "S n"])
next
  case (Suc m)
  then have k0: "k0 < n" "m = n - Suc k0" "Suc k0 \<le> n"
    by simp_all
  from step [OF k0(1)]
  have "while_loop model subj lvl (S k0) = while_loop model subj lvl (S (Suc k0))"
    by (simp add: while_loop.simps [of model subj lvl "S k0"])
  also have "\<dots> = S n"
    using Suc.hyps(1) [OF k0(2) k0(3)] .
  finally show ?case .
qed

lemma run_all_raise:
  assumes "\<And>i p. model i p = Raised"
  shows "while_loop model subj lvl (init_state w) =
           \<lparr>dataset = [], seen_questions = {}, tries = 30,
            calls = model_calls w @ replicate 30 (build_prompt subj lvl 0)\<rparr>"
proof -
  define S where "S k = \<lparr>dataset = [], seen_questions = {}, tries = k,
      calls = model_calls w @ replicate k (build_prompt subj lvl 0)\<rparr>" for k
  have "while_loop model subj lvl (S 0) = S 30"
  proof (rule while_loop_run)
    fix k :: nat
    assume "k < 30"
    then show "length (dataset (S k)) < 10 \<and> tries (S k) < 30 \<and>
        loop_body model subj lvl (S k) = S (Suc k)"
      by (simp add: S_def loop_body_def assms replicate_append_same)
  qed (simp_all add: S_def)
  then show ?thesis
    by (simp add: S_def init_state_def)
qed

lemma nth_notin_take:
  assumes "distinct xs" "k < length xs"
  shows "xs ! k \<notin> set (take k xs)"
proof
  assume "xs ! k \<in> set (take k xs)"
  then obtain j where "j < k" "take k xs ! j = xs ! k"
    by (auto simp: in_set_conv_nth)
  then have "xs ! j = xs ! k" "j \<noteq> k" "j < length xs"
    using assms(2) by simp_all
  with assms show False
    by (simp add: distinct_conv_nth)
qed

lemma run_ten_distinct:
  assumes calls10: "map (\<lambda>i. model i (build_prompt subj lvl i)) [0..<10] = map Text ts"
    and parses: "map (parse_mcq subj lvl) ts = map Some rs"
    and dist: "distinct (map question rs)"
  shows "while_loop model subj lvl (init_state w) =
           \<lparr>dataset = rs, seen_questions = set (map question rs), tries = 10,
            calls = model_calls w @ map (build_prompt subj lvl) [0..<10]\<rparr>"
proof -
  have len: "length ts = 10" "length rs = 10"
    using arg_cong [OF calls10, of length] arg_cong [OF parses, of length] by simp_all
  have call: "model k (build_prompt subj lvl k) = Text (ts ! k)" if "k < 10" for k
    using arg_cong [OF calls10, of "\<lambda>xs. xs ! k"] that len by simp
  have parse: "parse_mcq subj lvl (ts ! k) = Some (rs ! k)" if "k < 10" for k
    using arg_cong [OF parses, of "\<lambda>xs. xs ! k"] that len by simp
  have fresh: "question (rs ! k) \<notin> question ` set (take k rs)" if "k < 10" for k
    using nth_notin_take [OF dist, of k] that len by (simp add: take_map)
  define S where "S k = \<lparr>dataset = take k rs, seen_questions = question ` set (take k rs),
      tries = k, calls = model_calls w @ map (build_prompt subj lvl) [0..<k]\<rparr>" for k
  have "while_loop model subj lvl (S 0) = S 10"
  proof (rule while_loop_run)
    fix k :: nat
    assume k: "k < 10"
    then have "loop_body model subj lvl (S k) = S (Suc k)"
      using len call [OF k] parse [OF k] fresh [OF k]
      by (simp add: S_def loop_body_def take_Suc_conv_app_nth)
    with k len show "length (dataset (S k)) < 10 \<and> tries (S k) < 30 \<and>
        loop_body model subj lvl (S k) = S (Suc k)"
      by (simp add: S_def)
  qed (simp_all add: S_def len)
  then show ?thesis
    by (simp add: S_def init_state_def len)
qed

lemma run_alternating:
  assumes alt: "\<And>i p. model i p = (if even i then Text good else Text dup)"
    and good: "parse_mcq subj lvl good = Some r"
    and dup: "parse_mcq subj lvl dup = Some r'" "question r' = question r"
  shows "while_loop model subj lvl (init_state w) =
           \<lparr>dataset = [r], seen_questions = {question r}, tries = 30,
            calls = model_calls w @ build_prompt subj lvl 0 # replicate 29 (build_prompt subj lvl 1)\<rparr>"
proof -
  define S where "S k = (if k = 0 then init_state w else
      \<lparr>dataset = [r], seen_questions = {question r}, tries = k,
       calls = model_calls w @ build_prompt subj lvl 0 # replicate (k - 1) (build_prompt subj lvl 1)\<rparr>)"
    for k
  have "while_loop model subj lvl (S 0) = S 30"
  proof (rule while_loop_run)
    fix k :: nat
    assume k: "k < 30"
    show "length (dataset (S k)) < 10 \<and> tries (S k) < 30 \<and>
        loop_body model subj lvl (S k) = S (Suc k)"
    proof (cases k)
      case 0
      then show ?thesis
        by (simp add: S_def init_state_def loop_body_def alt good)
    next
      case (Suc j)
      then show ?thesis
        using k by (simp add: S_def loop_body_def alt good dup replicate_append_same)
    qed
  qed (simp_all add: S_def)
  then show ?thesis
    by (simp add: S_def)
qed

lemma run_same_question:
  assumes first: "model 0 (build_prompt subj lvl 0) = Text t0" "parse_mcq subj lvl t0 = Some r0"
    and later: "\<And>i. \<exists>t r. model i (build_prompt subj lvl 1) = Text t \<and>
        parse_mcq subj lvl t = Some r \<and> question r = question r0"
  shows "while_loop model subj lvl (init_state w) =
           \<lparr>dataset = [r0], seen_questions = {question r0}, tries = 30,
            calls = model_calls w @ build_prompt subj lvl 0 # replicate 29 (build_prompt subj lvl 1)\<rparr>"
proof -
  define S where "S k = (if k = 0 then init_state w else
      \<lparr>dataset = [r0], seen_questions = {question r0}, tries = k,
       calls = model_calls w @ build_prompt subj lvl 0 # replicate (k - 1) (build_prompt subj lvl 1)\<rparr>)"
    for k
  have "while_loop model subj lvl (S 0) = S 30"
  proof (rule while_loop_run)
    fix k :: nat
    assume k: "k < 30"
    show "length (dataset (S k)) < 10 \<and> tries (S k) < 30 \<and>
        loop_body model subj lvl (S k) = S (Suc k)"
    proof (cases k)
      case 0
      then show ?thesis
        by (simp add: S_def init_state_def loop_body_def first)
    next
      case (Suc j)
      from later [of k] obtain t r where "model k (build_prompt subj lvl 1) = Text t"
        "parse_mcq subj lvl t = Some r" "question r = question r0"
        by blast
      with Suc show ?thesis
        using k by (simp add: S_def loop_body_def Let_def replicate_append_same)
    qed
  qed (simp_all add: S_def)
  then show ?thesis
    by (simp add: S_def)
qed

subsection \<open>Bounds and uniqueness\<close>

text \<open>
  Claim C4. For every client, the loop ends (\<open>while_loop\<close> is a total function, and the
  state it returns is one the loop passes through and in which the loop condition is
  false), and in every state the loop passes through the dataset has at most 10 records
  and \<open>tries\<close>, which counts the passes through the body and the calls to the model, is
  at most 30.
\<close>

theorem accumulator_bounds:
  "visited model subj lvl (init_state w) (while_loop model subj lvl (init_state w)) \<and>
   \<not> (length (dataset (while_loop model subj lvl (init_state w))) < 10 \<and>
      tries (while_loop model subj lvl (init_state w)) < 30) \<and>
   (\<forall>st. visited model subj lvl (init_state w) st \<longrightarrow>
      length (dataset st) \<le> 10 \<and> tries st \<le> 30 \<and>
      length (calls st) = length (model_calls w) + tries st)"
  using while_loop_visited [OF visited_start] while_loop_stops visited_bounds
  by blast

theorem accumulator_bounds_witness:
  "length (dataset (while_loop alternating ''Python'' ''Beginner'' (init_state world0))) \<le> 10 \<and>
   tries (while_loop alternating ''Python'' ''Beginner'' (init_state world0)) \<le> 30 \<and>
   length (calls (while_loop alternating ''Python'' ''Beginner'' (init_state world0))) =
     length (model_calls world0) +
     tries (while_loop alternating ''Python'' ''Beginner'' (init_state world0))"
  using accumulator_bounds [of alternating "''Python''" "''Beginner''" world0]
  by blast

text \<open>
  Claim C5. For every client, in every state the loop passes through, so after every
  pass through the body, the question texts of the records in the dataset are pairwise
  different as strings.
\<close>

theorem accumulator_distinct:
  "visited model subj lvl (init_state w) st \<Longrightarrow> distinct (map question (dataset st))"
  using visited_distinct by blast

theorem accumulator_distinct_witness:
  "distinct (map question (dataset
     (loop_body alternating ''Python'' ''Beginner''
        (loop_body alternating ''Python'' ''Beginner'' (init_state world0)))))"
proof -
  let ?st1 = "loop_body alternating ''Python'' ''Beginner'' (init_state world0)"
  have 0: "length (dataset (init_state world0)) < 10 \<and> tries (init_state world0) < 30"
    by (simp add: init_state_def)
  have 1: "length (dataset ?st1) < 10 \<and> tries ?st1 < 30"
    using length_dataset_loop_body [of alternating "''Python''" "''Beginner''" "init_state world0"]
    by (simp add: tries_loop_body init_state_def)
  show ?thesis
    by (rule accumulator_distinct [OF visited_step [OF visited_step [OF visited_start 0] 1]])
qed

subsection \<open>Runs of the whole script\<close>

lemma main_runs:
  assumes "env ''GEMINI_API_KEY'' = Some k" "k \<noteq> []"
  shows "main env argv model w =
           (Inr (),
            w\<lparr>model_calls := calls (while_loop model (subject_of argv) (level_of argv) (init_state w)),
              dirs := insert ''data'' (dirs w),
              files := (files w)(output_file \<mapsto>
                 JArr (map to_json
                   (dataset (while_loop model (subject_of argv) (level_of argv) (init_state w)))))\<rparr>)"
  using assms by (simp add: main_def Let_def)

text \<open>
  Claim C6, as amended. With a credential in the environment: when the first 10 calls of
  the client return 10 texts that all parse, to records with pairwise different question
  texts, the loop ends after exactly 10 passes and 10 calls, and the output file
  \<^verbatim>\<open>data/questions_dataset.json\<close> holds the array of exactly these 10 records in the
  order of the calls, each an object with the keys \<^verbatim>\<open>subject\<close>, \<^verbatim>\<open>level\<close>,
  \<^verbatim>\<open>question\<close>, \<^verbatim>\<open>options\<close> (an object of the four options) and \<^verbatim>\<open>correct\<close>.
\<close>

theorem ten_distinct_responses:
  assumes "env ''GEMINI_API_KEY'' = Some k" and "k \<noteq> []"
    and "map (\<lambda>i. model i (build_prompt (subject_of argv) (level_of argv) i)) [0..<10] = map Text ts"
    and "map (parse_mcq (subject_of argv) (level_of argv)) ts = map Some rs"
    and "distinct (map question rs)"
  shows "tries (while_loop model (subject_of argv) (level_of argv) (init_state w)) = 10 \<and>
         main env argv model w =
           (Inr (),
            w\<lparr>model_calls := model_calls w @
                 map (build_prompt (subject_of argv) (level_of argv)) [0..<10],
              dirs := insert ''data'' (dirs w),
              files := (files w)(''data/questions_dataset.json'' \<mapsto>
                JArr (map (\<lambda>r. JObj [(''subject'', JStr (subject r)), (''level'', JStr (level r)),
                                     (''question'', JStr (question r)),
                                     (''options'', JObj (map (\<lambda>(k, v). (k, JStr v)) (options r))),
                                     (''correct'', JStr (correct r))]) rs))\<rparr>)"
proof -
  have "to_json = (\<lambda>r. JObj [(''subject'', JStr (subject r)), (''level'', JStr (level r)),
                                     (''question'', JStr (question r)),
                                     (''options'', JObj (map (\<lambda>(k, v). (k, JStr v)) (options r))),
                                     (''correct'', JStr (correct r))])"
    by (rule ext) (simp add: to_json_def)
  then show ?thesis
    using main_runs [of env k argv model w] assms
      run_ten_distinct [of model "subject_of argv" "level_of argv" ts rs w]
    by (simp add: output_file_def)
qed

theorem ten_distinct_responses_witness:
  "tries (while_loop numbered (subject_of argv0) (level_of argv0) (init_state world0)) = 10 \<and>
   main env0 argv0 numbered world0 =
     (Inr (),
      world0\<lparr>model_calls := model_calls world0 @
                 map (build_prompt (subject_of argv0) (level_of argv0)) [0..<10],
              dirs := insert ''data'' (dirs world0),
              files := (files world0)(''data/questions_dataset.json'' \<mapsto>
                 JArr (map (\<lambda>i. JObj [(''subject'', JStr ''Python''), (''level'', JStr ''Beginner''),
                                       (''question'', JStr (''Question '' @ str_nat i @ ''?'')),
                                       (''options'', JObj [(''A'', JStr ''one''), (''B'', JStr ''two''),
                                                          (''C'', JStr ''three''), (''D'', JStr ''four'')]),
                                       (''correct'', JStr ''A'')]) [0..<10]))\<rparr>)"
proof -
  have 1: "env0 ''GEMINI_API_KEY'' = Some ''secret''"
    by (simp add: env0_def)
  have 2: "''secret'' \<noteq> []"
    by simp
  have 3: "map (\<lambda>i. numbered i (build_prompt (subject_of argv0) (level_of argv0) i)) [0..<10] =
        map Text (map sample_response [0..<10])"
    by (simp add: numbered_def)
  have 4: "map (parse_mcq (subject_of argv0) (level_of argv0)) (map sample_response [0..<10]) =
        map Some (map sample_record [0..<10])"
    by (simp add: subject_of_def level_of_def argv0_def sample_response_def sample_record_def
        parse_mcq_def mcq_pattern_def is_space_def strip_def str_nat.simps upt_rec)
  have 5: "distinct (map question (map sample_record [0..<10]))"
    by (simp add: sample_record_def str_nat.simps upt_rec)
  show ?thesis
    using ten_distinct_responses [of env0 "''secret''" numbered argv0 "map sample_response [0..<10]"
        "map sample_record [0..<10]" world0, OF 1 2 3 4 5]
    by (simp add: sample_record_def comp_def)
qed

text \<open>
  The claim as first stated asks only that the 10 responses be distinct and well-formed.
  The client \<open>same_question\<close> returns 10 pairwise different well-formed texts on its
  first 10 calls, with one question and different options: the first is accepted, the
  others are skipped as duplicates, and the loop ends at attempt 30 with 1 record.
\<close>

theorem ten_distinct_texts_counterexample:
  "distinct (map same_question_response [0..<10]) \<and>
   map (\<lambda>i. same_question i (build_prompt ''Python'' ''Beginner'' i)) [0..<10] =
     map Text (map same_question_response [0..<10]) \<and>
   map (parse_mcq ''Python'' ''Beginner'') (map same_question_response [0..<10]) =
     map Some (map same_question_record [0..<10]) \<and>
   tries (while_loop same_question ''Python'' ''Beginner'' (init_state world0)) = 30 \<and>
   dataset (while_loop same_question ''Python'' ''Beginner'' (init_state world0)) =
     [same_question_record 0]"
proof -
  have d: "distinct (map same_question_response [0..<10])"
    by (simp add: same_question_response_def str_nat.simps upt_rec)
  have c: "map (\<lambda>i. same_question i (build_prompt ''Python'' ''Beginner'' i)) [0..<10] =
     map Text (map same_question_response [0..<10])"
    by (simp add: same_question_def)
  have p: "map (parse_mcq ''Python'' ''Beginner'') (map same_question_response [0..<10]) =
     map Some (map same_question_record [0..<10])"
    by (simp add: same_question_response_def same_question_record_def parse_mcq_def
        mcq_pattern_def is_space_def strip_def str_nat.simps upt_rec)
  have pj: "parse_mcq ''Python'' ''Beginner'' (same_question_response j) =
      Some (same_question_record j)" if "j < 10" for j
    using arg_cong [OF p, of "\<lambda>xs. xs ! j"] that by simp
  have "while_loop same_question ''Python'' ''Beginner'' (init_state world0) =
      \<lparr>dataset = [same_question_record 0],
       seen_questions = {question (same_question_record 0)}, tries = 30,
       calls = model_calls world0 @ build_prompt ''Python'' ''Beginner'' 0 #
         replicate 29 (build_prompt ''Python'' ''Beginner'' 1)\<rparr>"
  proof (rule run_same_question)
    show "same_question 0 (build_prompt ''Python'' ''Beginner'' 0) = Text (same_question_response 0)"
      by (simp add: same_question_def)
    show "parse_mcq ''Python'' ''Beginner'' (same_question_response 0) = Some (same_question_record 0)"
      by (rule pj) simp
    show "\<exists>t r. same_question i (build_prompt ''Python'' ''Beginner'' 1) = Text t \<and>
        parse_mcq ''Python'' ''Beginner'' t = Some r \<and>
        question r = question (same_question_record 0)" for i
      using pj [of "i mod 10"] by (simp add: same_question_def same_question_record_def)
  qed
  with d c p show ?thesis
    by simp
qed

text \<open>
  Claim C7. With a credential in the environment: when every call of the client raises,
  the script ends normally, after 30 passes through the loop and 30 calls, and the
  output file holds the empty array.
\<close>

theorem always_failing_client:
  assumes "env ''GEMINI_API_KEY'' = Some k" and "k \<noteq> []"
    and "\<And>i p. model i p = Raised"
  shows "tries (while_loop model (subject_of argv) (level_of argv) (init_state w)) = 30 \<and>
         main env argv model w =
           (Inr (),
            w\<lparr>model_calls := model_calls w @
                 replicate 30 (build_prompt (subject_of argv) (level_of argv) 0),
              dirs := insert ''data'' (dirs w),
              files := (files w)(output_file \<mapsto> JArr [])\<rparr>)"
  using main_runs [of env k argv model w] assms(1,2)
    run_all_raise [of model "subject_of argv" "level_of argv" w, OF assms(3)]
  by simp

theorem always_failing_client_witness:
  "tries (while_loop always_raises (subject_of argv0) (level_of argv0) (init_state world0)) = 30 \<and>
   main env0 argv0 always_raises world0 =
     (Inr (),
      world0\<lparr>model_calls := model_calls world0 @
                 replicate 30 (build_prompt (subject_of argv0) (level_of argv0) 0),
              dirs := insert ''data'' (dirs world0),
              files := (files world0)(output_file \<mapsto> JArr [])\<rparr>)"
proof (rule always_failing_client)
  show "env0 ''GEMINI_API_KEY'' = Some ''secret''"
    by (simp add: env0_def)
  show "''secret'' \<noteq> []"
    by simp
  show "always_raises i p = Raised" for i p
    by (simp add: always_raises_def)
qed

text \<open>
  Claim C8, as amended. When the client alternates a well-formed response with a
  response that parses to the same question text, the loop ends at attempt 30 with
  exactly 1 accepted record, the one of the first response: every later response is
  skipped as a duplicate.
\<close>

theorem alternating_duplicate:
  assumes "\<And>i p. model i p = (if even i then Text good else Text dup)"
    and "parse_mcq subj lvl good = Some r"
    and "parse_mcq subj lvl dup = Some r'" and "question r' = question r"
  shows "tries (while_loop model subj lvl (init_state w)) = 30 \<and>
         dataset (while_loop model subj lvl (init_state w)) = [r]"
  using run_alternating [of model good dup subj lvl r r' w, OF assms]
  by simp

theorem alternating_duplicate_witness:
  "tries (while_loop alternating ''Python'' ''Beginner'' (init_state world0)) = 30 \<and>
   dataset (while_loop alternating ''Python'' ''Beginner'' (init_state world0)) = [sample_record 0]"
proof (rule alternating_duplicate)
  show "alternating i p =
      (if even i then Text (sample_response 0) else Text (''Once more:'' @ NL # sample_response 0))"
    for i p
    by (simp add: alternating_def)
  show "parse_mcq ''Python'' ''Beginner'' (sample_response 0) = Some (sample_record 0)"
    by (simp add: sample_response_def sample_record_def parse_mcq_def mcq_pattern_def
        is_space_def strip_def str_nat.simps)
  show "parse_mcq ''Python'' ''Beginner'' (''Once more:'' @ NL # sample_response 0) =
      Some (sample_record 0)"
    by (simp add: sample_response_def sample_record_def parse_mcq_def mcq_pattern_def
        is_space_def strip_def str_nat.simps)
  show "question (sample_record 0) = question (sample_record 0)"
    by simp
qed

text \<open>
  When the well-formed responses on the even calls are instead new each time, with
  pairwise different questions, and the odd calls repeat the first question, every
  second attempt adds a record and the loop ends after 19 attempts with 10 records.
\<close>

lemma run_alternating_fresh:
  assumes alt: "\<And>i p. model i p = (if even i then Text (ts ! (i div 2)) else Text dup)"
    and parses: "map (parse_mcq subj lvl) ts = map Some rs"
    and len: "length rs = 10"
    and dist: "distinct (map question rs)"
    and dup: "parse_mcq subj lvl dup = Some r'" "question r' = question (rs ! 0)"
  shows "tries (while_loop model subj lvl (init_state w)) = 19 \<and>
         dataset (while_loop model subj lvl (init_state w)) = rs"
proof -
  have lents: "length ts = 10"
    using arg_cong [OF parses, of length] len by simp
  have parse: "parse_mcq subj lvl (ts ! j) = Some (rs ! j)" if "j < 10" for j
    using arg_cong [OF parses, of "\<lambda>xs. xs ! j"] that len lents by simp
  have fresh: "question (rs ! j) \<notin> question ` set (take j rs)" if "j < 10" for j
    using nth_notin_take [OF dist, of j] that len by (simp add: take_map)
  have first: "question (rs ! 0) \<in> question ` set (take (Suc j) rs)" for j
    using len by (cases rs) auto
  define S where "S k = \<lparr>dataset = take (Suc k div 2) rs,
      seen_questions = question ` set (take (Suc k div 2) rs), tries = k,
      calls = model_calls w @ map (\<lambda>j. build_prompt subj lvl (Suc j div 2)) [0..<k]\<rparr>" for k
  have "while_loop model subj lvl (S 0) = S 19"
  proof (rule while_loop_run)
    fix k :: nat
    assume k: "k < 19"
    show "length (dataset (S k)) < 10 \<and> tries (S k) < 30 \<and>
        loop_body model subj lvl (S k) = S (Suc k)"
    proof (cases "even k")
      case True
      then obtain j where j: "k = 2 * j" by (auto elim: evenE)
      with k have j10: "j < 10" by simp
      show ?thesis
        using j10 len parse [OF j10] fresh [OF j10]
        by (simp add: S_def loop_body_def alt j take_Suc_conv_app_nth)
    next
      case False
      then obtain j where j: "k = Suc (2 * j)" by (auto elim: oddE)
      with k have j9: "j < 9" by simp
      show ?thesis
        using j9 len first [of j]
        by (simp add: S_def loop_body_def alt j dup)
    qed
  qed (simp_all add: S_def len)
  then show ?thesis
    by (simp add: S_def init_state_def len)
qed

text \<open>
  The claim as first stated (the run ends at attempt 30 with exactly 2 records) fails on
  both readings: on \<open>alternating\<close> the run ends at attempt 30 with 1 record, on
  \<open>alternating_fresh\<close> after 19 attempts with 10 records.
\<close>

theorem alternating_duplicate_counterexample:
  "tries (while_loop alternating ''Python'' ''Beginner'' (init_state world0)) = 30 \<and>
   length (dataset (while_loop alternating ''Python'' ''Beginner'' (init_state world0))) = 1 \<and>
   tries (while_loop alternating_fresh ''Python'' ''Beginner'' (init_state world0)) = 19 \<and>
   length (dataset (while_loop alternating_fresh ''Python'' ''Beginner'' (init_state world0))) = 10"
proof -
  have good: "parse_mcq ''Python'' ''Beginner'' (sample_response 0) = Some (sample_record 0)"
    by (simp add: sample_response_def sample_record_def parse_mcq_def mcq_pattern_def
        is_space_def strip_def str_nat.simps)
  have dup: "parse_mcq ''Python'' ''Beginner'' (''Once more:'' @ NL # sample_response 0) =
      Some (sample_record 0)"
    by (simp add: sample_response_def sample_record_def parse_mcq_def mcq_pattern_def
        is_space_def strip_def str_nat.simps)
  have all: "map (parse_mcq ''Python'' ''Beginner'') (map sample_response [0..<10]) =
      map Some (map sample_record [0..<10])"
    by (simp add: sample_response_def sample_record_def parse_mcq_def mcq_pattern_def
        is_space_def strip_def str_nat.simps upt_rec)
  have dist: "distinct (map question (map sample_record [0..<10]))"
    by (simp add: sample_record_def str_nat.simps upt_rec)
  have "while_loop alternating ''Python'' ''Beginner'' (init_state world0) =
      \<lparr>dataset = [sample_record 0], seen_questions = {question (sample_record 0)}, tries = 30,
       calls = model_calls world0 @ build_prompt ''Python'' ''Beginner'' 0 #
         replicate 29 (build_prompt ''Python'' ''Beginner'' 1)\<rparr>"
    by (rule run_alternating [OF _ good dup]) (simp_all add: alternating_def)
  moreover have "tries (while_loop alternating_fresh ''Python'' ''Beginner'' (init_state world0)) = 19 \<and>
      dataset (while_loop alternating_fresh ''Python'' ''Beginner'' (init_state world0)) =
        map sample_record [0..<10]"
  proof (rule run_alternating_fresh [OF _ all _ dist dup])
    show "alternating_fresh i p =
        (if even i then Text (map sample_response [0..<10] ! (i div 2))
         else Text (''Once more:'' @ NL # sample_response 0))" for i p
      by (simp add: alternating_fresh_def)
  qed simp_all
  ultimately show ?thesis
    by simp
qed

subsection \<open>The credential\<close>

text \<open>
  Claim C9. When the environment has no \<^verbatim>\<open>GEMINI_API_KEY\<close>, the script ends with the
  \<^verbatim>\<open>ValueError\<close> and leaves the world as it was: no call to the model is made, the loop
  is not entered, no directory is created and no file is written.
\<close>

theorem missing_credential:
  "env ''GEMINI_API_KEY'' = None \<Longrightarrow> main env argv model w = (Inl ValueError, w)"
  by (simp add: main_def)

theorem missing_credential_witness:
  "main Map.empty argv0 numbered world0 = (Inl ValueError, world0)"
  using missing_credential [of Map.empty argv0 numbered world0] by simp

text \<open>
  Claim C10. When \<^verbatim>\<open>GEMINI_API_KEY\<close> is set to the empty string, the script ends with
  the same \<^verbatim>\<open>ValueError\<close> and the same untouched world as when the variable is not set.
\<close>

theorem empty_credential:
  "env ''GEMINI_API_KEY'' = Some [] \<Longrightarrow>
   main env argv model w = (Inl ValueError, w) \<and>
   main env argv model w = main (env(''GEMINI_API_KEY'' := None)) argv model w"
  by (simp add: main_def)

theorem empty_credential_witness:
  "main [''GEMINI_API_KEY'' \<mapsto> []] argv0 numbered world0 = (Inl ValueError, world0) \<and>
   main [''GEMINI_API_KEY'' \<mapsto> []] argv0 numbered world0 =
     main ([''GEMINI_API_KEY'' \<mapsto> []](''GEMINI_API_KEY'' := None)) argv0 numbered world0"
  by (rule empty_credential) simp

end
